theory Spec2Isabelle
  imports Main
begin

section \<open>pystac.item_collection: the ItemCollection container\<close>

text \<open>
  A shallow embedding of \<^verbatim>\<open>src/pystac/item_collection.py\<close>. The class
  \<^verbatim>\<open>ItemCollection\<close> holds a list of references to \<^verbatim>\<open>pystac.Item\<close> objects and a
  reference to a dictionary of extra top-level fields. Several of its operations are
  observable only through object identity (membership, the de-duplicating addition,
  cloning), so Item objects and the extra-fields dictionaries live in an explicit store
  and the collection holds their addresses. \<^verbatim>\<open>save_object\<close>, which hands \<^verbatim>\<open>to_dict()\<close> to
  the storage collaborator and returns nothing, is left out.
\<close>

subsection \<open>JSON-like values and Python dictionaries\<close>

text \<open>
  The values of a \<^verbatim>\<open>Dict[str, Any]\<close> document. A dictionary is an association list in
  insertion order, as Python's \<^verbatim>\<open>dict\<close> iterates. Nested values are immutable trees: an
  in-place change of a nested value is a replacement of the tree bound to the top-level
  key. Floating point numbers are left out; no operation of the module inspects a number.
\<close>

datatype json =
    JNull
  | JBool bool
  | JInt int
  | JStr string
  | JList "json list"
  | JDict "(string \<times> json) list"

type_synonym dict = "(string \<times> json) list"

text \<open>\<^verbatim>\<open>d.get(k)\<close>: the value bound to \<open>k\<close>, if any.\<close>

fun dict_get :: "dict \<Rightarrow> string \<Rightarrow> json option" where
  "dict_get [] k = None"
| "dict_get ((k', v) # d) k = (if k' = k then Some v else dict_get d k)"

text \<open>
  \<^verbatim>\<open>d[k] = v\<close>: a key already present keeps its position and takes the new value, a new
  key goes to the end.
\<close>

fun dict_setitem :: "dict \<Rightarrow> string \<Rightarrow> json \<Rightarrow> dict" where
  "dict_setitem [] k v = [(k, v)]"
| "dict_setitem ((k', v') # d) k v =
     (if k' = k then (k, v) # d else (k', v') # dict_setitem d k v)"

text \<open>
  \<^verbatim>\<open>{**base, **extra}\<close>: the entries of \<open>extra\<close> are stored into \<open>base\<close> one by one, in
  the iteration order of \<open>extra\<close>.
\<close>

fun dict_merge :: "dict \<Rightarrow> dict \<Rightarrow> dict" where
  "dict_merge base [] = base"
| "dict_merge base ((k, v) # extra) = dict_merge (dict_setitem base k v) extra"

definition dict_keys :: "dict \<Rightarrow> string list" where
  "dict_keys d = map fst d"

text \<open>A well-formed Python dictionary binds each key once.\<close>

definition dict_ok :: "dict \<Rightarrow> bool" where
  "dict_ok d = distinct (dict_keys d)"

subsection \<open>Errors\<close>

text \<open>
  Every exception the module can raise or let through. \<open>STACTypeError\<close> is the one the
  module raises itself (with its message); \<open>TypeError\<close> is Python's, for iterating a
  value that is not iterable; \<open>CollaboratorError\<close> carries, unchanged, an error raised
  by \<^verbatim>\<open>Item.from_dict\<close> or by the storage collaborator. \<open>DanglingReference\<close> is no Python
  exception: it is the model's answer where an address denotes no object of the store,
  which a Python reference never does.
\<close>

datatype 'e error =
    STACTypeError string
  | TypeError string
  | CollaboratorError 'e
  | DanglingReference

subsection \<open>The store\<close>

text \<open>
  Objects are never freed, so a store is a growing array per kind of object and an
  address is an index into it: the next free address is the length of the array, and an
  address is valid when it is below the length.
\<close>

type_synonym item_ref = nat
type_synonym dict_ref = nat

record 'i heap =
  item_objs :: "'i list"
  dict_objs :: "dict list"

definition item_valid :: "'i heap \<Rightarrow> item_ref \<Rightarrow> bool" where
  "item_valid h a = (a < length (item_objs h))"

definition dict_valid :: "'i heap \<Rightarrow> dict_ref \<Rightarrow> bool" where
  "dict_valid h r = (r < length (dict_objs h))"

definition new_item :: "'i \<Rightarrow> 'i heap \<Rightarrow> item_ref \<times> 'i heap" where
  "new_item s h = (length (item_objs h), h\<lparr>item_objs := item_objs h @ [s]\<rparr>)"

definition new_dict :: "dict \<Rightarrow> 'i heap \<Rightarrow> dict_ref \<times> 'i heap" where
  "new_dict d h = (length (dict_objs h), h\<lparr>dict_objs := dict_objs h @ [d]\<rparr>)"

text \<open>
  Mutation of an object by the caller (assigning a field of an Item, storing an entry of
  a dictionary): the object at the address takes a new state.
\<close>

definition set_item :: "item_ref \<Rightarrow> 'i \<Rightarrow> 'i heap \<Rightarrow> 'i heap" where
  "set_item a s h = h\<lparr>item_objs := (item_objs h)[a := s]\<rparr>"

definition set_dict :: "dict_ref \<Rightarrow> dict \<Rightarrow> 'i heap \<Rightarrow> 'i heap" where
  "set_dict r d h = h\<lparr>dict_objs := (dict_objs h)[r := d]\<rparr>"

text \<open>
  \<open>extends h h'\<close>: the store \<open>h'\<close> holds every object of \<open>h\<close>, unchanged and at the
  same address, and possibly new ones.
\<close>

definition extends :: "'i heap \<Rightarrow> 'i heap \<Rightarrow> bool" where
  "extends h h' =
     (take (length (item_objs h)) (item_objs h') = item_objs h \<and>
      take (length (dict_objs h)) (dict_objs h') = dict_objs h)"

text \<open>A computation runs on a store and returns a result or an error, and the new store.\<close>

type_synonym ('a, 'i, 'e) comp = "'i heap \<Rightarrow> ('e error + 'a) \<times> 'i heap"

text \<open>
  \<^verbatim>\<open>[f(x) for x in xs]\<close> and \<^verbatim>\<open>list(map(f, xs))\<close>: \<open>f\<close> runs on each element from left to
  right, and the first exception ends the loop.
\<close>

fun map_comp :: "('a \<Rightarrow> ('b, 'i, 'e) comp) \<Rightarrow> 'a list \<Rightarrow> ('b list, 'i, 'e) comp" where
  "map_comp f [] h = (Inr [], h)"
| "map_comp f (x # xs) h =
     (case f x h of
        (Inl e, h1) \<Rightarrow> (Inl e, h1)
      | (Inr y, h1) \<Rightarrow>
          (case map_comp f xs h1 of
             (Inl e, h2) \<Rightarrow> (Inl e, h2)
           | (Inr ys, h2) \<Rightarrow> (Inr (y # ys), h2)))"

subsection \<open>The collaborators\<close>

text \<open>
  Modelled from the spec: the type tags of \<^verbatim>\<open>pystac.STACObjectType\<close>, of which the source
  names \<^verbatim>\<open>ITEMCOLLECTION\<close> only (the \<open>collection of items\<close> tag); the other tags are the
  other kinds of cataloging object the identifier can report.
\<close>

datatype STACObjectType = CATALOG | COLLECTION | ITEM | ITEMCOLLECTION

text \<open>
  The functions of pystac that the module calls and does not define are parameters of
  the model: \<^verbatim>\<open>identify_stac_object_type\<close>; \<^verbatim>\<open>Item.from_dict\<close>, \<^verbatim>\<open>Item.to_dict\<close> and
  \<^verbatim>\<open>Item.clone\<close>, given on the state \<open>'i\<close> of an Item object; the href utilities; and
  \<^verbatim>\<open>StacIO.default()\<close>, a storage collaborator being its \<^verbatim>\<open>read_json\<close>.
  \<open>Item_from_dict\<close> receives whatever value the module hands it and answers with the
  state of the Item to create or with its own error. \<open>Item_clone\<close> gives the state of
  the copy from the state of the original. \<^verbatim>\<open>Item.to_dict\<close>, \<^verbatim>\<open>Item.clone\<close> and the type
  identifier are taken to return; \<^verbatim>\<open>Item.from_dict\<close> and \<^verbatim>\<open>read_json\<close> may raise.
\<close>

type_synonym 'e StacIO = "string \<Rightarrow> 'e + dict"

record ('i, 'e) pystac =
  identify_stac_object_type :: "dict \<Rightarrow> STACObjectType option"
  Item_from_dict :: "json \<Rightarrow> 'e + 'i"
  Item_to_dict :: "'i \<Rightarrow> dict"
  Item_clone :: "'i \<Rightarrow> 'i"
  is_absolute_href :: "string \<Rightarrow> bool"
  make_absolute_href :: "string \<Rightarrow> string"
  StacIO_default :: "'e StacIO"

text \<open>\<^verbatim>\<open>pystac.Item.from_dict(d)\<close>: a new Item object, or the parser's error.\<close>

definition Item_from_dict_call :: "('i, 'e) pystac \<Rightarrow> json \<Rightarrow> (item_ref, 'i, 'e) comp" where
  "Item_from_dict_call P j h =
     (case Item_from_dict P j of
        Inl e \<Rightarrow> (Inl (CollaboratorError e), h)
      | Inr s \<Rightarrow> (case new_item s h of (a, h1) \<Rightarrow> (Inr a, h1)))"

text \<open>\<^verbatim>\<open>item.clone()\<close>: a new Item object whose state is the copy's.\<close>

definition Item_clone_call :: "('i, 'e) pystac \<Rightarrow> item_ref \<Rightarrow> (item_ref, 'i, 'e) comp" where
  "Item_clone_call P a h =
     (if item_valid h a
      then (case new_item (Item_clone P (item_objs h ! a)) h of (a1, h1) \<Rightarrow> (Inr a1, h1))
      else (Inl DanglingReference, h))"

text \<open>\<^verbatim>\<open>item.to_dict()\<close>, which reads the Item and changes nothing.\<close>

definition Item_to_dict_call :: "('i, 'e) pystac \<Rightarrow> item_ref \<Rightarrow> (json, 'i, 'e) comp" where
  "Item_to_dict_call P a h =
     (if item_valid h a
      then (Inr (JDict (Item_to_dict P (item_objs h ! a))), h)
      else (Inl DanglingReference, h))"

text \<open>
  \<^verbatim>\<open>copy.deepcopy(d)\<close> of the Python standard library, on a dictionary of tree-shaped
  values: a new dictionary object with equal content.
\<close>

definition deepcopy :: "dict_ref \<Rightarrow> (dict_ref, 'i, 'e) comp" where
  "deepcopy r h =
     (if dict_valid h r
      then (case new_dict (dict_objs h ! r) h of (r1, h1) \<Rightarrow> (Inr r1, h1))
      else (Inl DanglingReference, h))"

subsection \<open>ItemCollection\<close>

text \<open>
  \<^verbatim>\<open>ItemLike = Union[pystac.Item, Dict[str, Any]]\<close>. The constructor tests
  \<^verbatim>\<open>isinstance(item_or_dict, pystac.Item)\<close> and hands anything else to
  \<^verbatim>\<open>Item.from_dict\<close>, so the second alternative is any value.
\<close>

datatype ItemLike = ItemObj item_ref | Raw json

record ItemCollection =
  items :: "item_ref list"
  extra_fields :: dict_ref

text \<open>
  \<^verbatim>\<open>map_item\<close>, the local function of \<^verbatim>\<open>__init__\<close>: an Item is cloned or kept as it is, a
  dictionary is parsed.
\<close>

fun map_item :: "('i, 'e) pystac \<Rightarrow> bool \<Rightarrow> ItemLike \<Rightarrow> (item_ref, 'i, 'e) comp" where
  "map_item P clone_items (ItemObj a) h =
     (if clone_items then Item_clone_call P a h else (Inr a, h))"
| "map_item P clone_items (Raw j) h = Item_from_dict_call P j h"

text \<open>
  \<^verbatim>\<open>extra_fields or {}\<close>: \<^verbatim>\<open>None\<close> and the empty dictionary are false in Python, and
  then the field is a new empty dictionary; any other dictionary is stored itself.
\<close>

definition extra_fields_or_empty :: "dict_ref option \<Rightarrow> (dict_ref, 'i, 'e) comp" where
  "extra_fields_or_empty ef h =
     (case ef of
        None \<Rightarrow> (case new_dict [] h of (r, h1) \<Rightarrow> (Inr r, h1))
      | Some r \<Rightarrow>
          if \<not> dict_valid h r then (Inl DanglingReference, h)
          else if dict_objs h ! r = [] then (case new_dict [] h of (r1, h1) \<Rightarrow> (Inr r1, h1))
          else (Inr r, h))"

text \<open>\<^verbatim>\<open>ItemCollection.__init__(items, extra_fields=None, clone_items=True)\<close>.\<close>

definition ItemCollection_init ::
  "('i, 'e) pystac \<Rightarrow> ItemLike list \<Rightarrow> dict_ref option \<Rightarrow> bool \<Rightarrow> (ItemCollection, 'i, 'e) comp"
where
  "ItemCollection_init P its ef clone_items h =
     (case map_comp (map_item P clone_items) its h of
        (Inl e, h1) \<Rightarrow> (Inl e, h1)
      | (Inr refs, h1) \<Rightarrow>
          (case extra_fields_or_empty ef h1 of
             (Inl e, h2) \<Rightarrow> (Inl e, h2)
           | (Inr r, h2) \<Rightarrow> (Inr \<lparr>items = refs, extra_fields = r\<rparr>, h2)))"

text \<open>
  The read-only container protocol: \<^verbatim>\<open>__getitem__\<close> (Python indexing: a negative index
  counts from the end, an index out of range raises \<^verbatim>\<open>IndexError\<close>), \<^verbatim>\<open>__iter__\<close>,
  \<^verbatim>\<open>__len__\<close>.
\<close>

definition ItemCollection_getitem :: "ItemCollection \<Rightarrow> int \<Rightarrow> item_ref option" where
  "ItemCollection_getitem self idx =
     (let n = int (length (items self)); j = (if idx < 0 then n + idx else idx)
      in if 0 \<le> j \<and> j < n then Some (items self ! nat j) else None)"

definition ItemCollection_iter :: "ItemCollection \<Rightarrow> item_ref list" where
  "ItemCollection_iter self = items self"

definition ItemCollection_len :: "ItemCollection \<Rightarrow> nat" where
  "ItemCollection_len self = length (items self)"

text \<open>
  The objects a caller can pass where the signature says \<^verbatim>\<open>object\<close>: an Item, an
  ItemCollection, or any other value.
\<close>

datatype pyobject = AnItem item_ref | AnItemCollection ItemCollection | AValue json

text \<open>
  \<^verbatim>\<open>__contains__\<close>: \<^verbatim>\<open>__x in self.items\<close>. Python compares \<^verbatim>\<open>__x\<close> with each element by
  \<^verbatim>\<open>is\<close> and then by \<^verbatim>\<open>==\<close>; \<^verbatim>\<open>pystac.Item\<close> defines no \<^verbatim>\<open>__eq__\<close> (the class docstring:
  equality is default object equality), so an Item equals itself only and nothing
  that is not an Item equals an Item.
\<close>

fun ItemCollection_contains :: "ItemCollection \<Rightarrow> pyobject \<Rightarrow> bool" where
  "ItemCollection_contains self (AnItem a) = (a \<in> set (items self))"
| "ItemCollection_contains self (AnItemCollection c) = False"
| "ItemCollection_contains self (AValue j) = False"

text \<open>
  The loop of \<^verbatim>\<open>__add__\<close>: \<open>combine combined rest\<close> walks \<open>rest\<close> and appends to
  \<open>combined\<close> each item that is not in it yet.
\<close>

fun combine :: "item_ref list \<Rightarrow> item_ref list \<Rightarrow> item_ref list" where
  "combine combined [] = combined"
| "combine combined (item # rest) =
     combine (if item \<notin> set combined then combined @ [item] else combined) rest"

text \<open>
  \<^verbatim>\<open>__add__\<close> returns the constant \<^verbatim>\<open>NotImplemented\<close> for an operand that is no
  ItemCollection, and a new ItemCollection otherwise.
\<close>

datatype add_result = NotImplemented | Combined ItemCollection

text \<open>\<^verbatim>\<open>isinstance(other, ItemCollection)\<close>, the test of \<^verbatim>\<open>__add__\<close>.\<close>

fun isinstance_ItemCollection :: "pyobject \<Rightarrow> bool" where
  "isinstance_ItemCollection (AnItemCollection c) = True"
| "isinstance_ItemCollection (AnItem a) = False"
| "isinstance_ItemCollection (AValue j) = False"

text \<open>
  \<^verbatim>\<open>__add__\<close>: the first equation is the operand that passes the test; its items are
  combined and given to the constructor with \<^verbatim>\<open>clone_items=False\<close> and no extra fields.
\<close>

fun ItemCollection_add ::
  "('i, 'e) pystac \<Rightarrow> ItemCollection \<Rightarrow> pyobject \<Rightarrow> (add_result, 'i, 'e) comp"
where
  "ItemCollection_add P self (AnItemCollection other) h =
     (case ItemCollection_init P
             (map ItemObj (combine [] (items self @ items other))) None False h of
        (Inl e, h1) \<Rightarrow> (Inl e, h1)
      | (Inr c, h1) \<Rightarrow> (Inr (Combined c), h1))"
| "ItemCollection_add P self (AnItem a) h = (Inr NotImplemented, h)"
| "ItemCollection_add P self (AValue j) h = (Inr NotImplemented, h)"

text \<open>
  \<^verbatim>\<open>to_dict\<close>: the dictionary display
  \<^verbatim>\<open>{"type": "FeatureCollection", "features": [...], **self.extra_fields}\<close>.
\<close>

definition to_dict :: "('i, 'e) pystac \<Rightarrow> ItemCollection \<Rightarrow> (dict, 'i, 'e) comp" where
  "to_dict P self h =
     (case map_comp (Item_to_dict_call P) (items self) h of
        (Inl e, h1) \<Rightarrow> (Inl e, h1)
      | (Inr features, h1) \<Rightarrow>
          if dict_valid h1 (extra_fields self)
          then (Inr (dict_merge
                       [(''type'', JStr ''FeatureCollection''), (''features'', JList features)]
                       (dict_objs h1 ! extra_fields self)), h1)
          else (Inl DanglingReference, h1))"

text \<open>
  \<^verbatim>\<open>clone\<close>: the items are cloned, the extra fields deep-copied, and both go to the
  constructor, whose \<^verbatim>\<open>clone_items\<close> is left at its default \<^verbatim>\<open>True\<close>.
\<close>

definition clone :: "('i, 'e) pystac \<Rightarrow> ItemCollection \<Rightarrow> (ItemCollection, 'i, 'e) comp" where
  "clone P self h =
     (case map_comp (Item_clone_call P) (items self) h of
        (Inl e, h1) \<Rightarrow> (Inl e, h1)
      | (Inr cs, h1) \<Rightarrow>
          (case deepcopy (extra_fields self) h1 of
             (Inl e, h2) \<Rightarrow> (Inl e, h2)
           | (Inr r, h2) \<Rightarrow> ItemCollection_init P (map ItemObj cs) (Some r) True h2))"

text \<open>
  Iterating a value, as the comprehension over \<^verbatim>\<open>d.get("features", [])\<close> does: a list
  gives its elements, a dictionary its keys, a string its characters, and anything else
  raises \<^verbatim>\<open>TypeError\<close>.
\<close>

fun py_iter :: "json \<Rightarrow> 'e error + json list" where
  "py_iter (JList xs) = Inr xs"
| "py_iter (JDict d) = Inr (map (\<lambda>(k, v). JStr k) d)"
| "py_iter (JStr s) = Inr (map (\<lambda>c. JStr [c]) s)"
| "py_iter j = Inl (TypeError ''object is not iterable'')"

text \<open>\<^verbatim>\<open>{k: v for k, v in d.items() if k not in ("features", "type")}\<close>.\<close>

definition other_fields :: "dict \<Rightarrow> dict" where
  "other_fields d = filter (\<lambda>(k, v). k \<notin> set [''features'', ''type'']) d"

text \<open>
  \<^verbatim>\<open>from_dict\<close>: the type check, then the features parsed one by one, then the other
  top-level fields collected into a new dictionary, and the constructor with
  \<^verbatim>\<open>clone_items=False\<close>.
\<close>

definition from_dict :: "('i, 'e) pystac \<Rightarrow> dict \<Rightarrow> (ItemCollection, 'i, 'e) comp" where
  "from_dict P d h =
     (if identify_stac_object_type P d \<noteq> Some ITEMCOLLECTION
      then (Inl (STACTypeError ''Dict is not a valid ItemCollection''), h)
      else
        (case py_iter (case dict_get d ''features'' of None \<Rightarrow> JList [] | Some v \<Rightarrow> v) of
           Inl e \<Rightarrow> (Inl e, h)
         | Inr fs \<Rightarrow>
             (case map_comp (Item_from_dict_call P) fs h of
                (Inl e, h1) \<Rightarrow> (Inl e, h1)
              | (Inr refs, h1) \<Rightarrow>
                  (case new_dict (other_fields d) h1 of
                     (r, h2) \<Rightarrow> ItemCollection_init P (map ItemObj refs) (Some r) False h2))))"

text \<open>
  \<^verbatim>\<open>from_file\<close>: the default storage collaborator when none is given, the href made
  absolute when it is not, the document read and parsed.
\<close>

definition from_file ::
  "('i, 'e) pystac \<Rightarrow> string \<Rightarrow> 'e StacIO option \<Rightarrow> (ItemCollection, 'i, 'e) comp"
where
  "from_file P href stac_io h =
     (let io = (case stac_io of None \<Rightarrow> StacIO_default P | Some io' \<Rightarrow> io');
          href1 = (if \<not> is_absolute_href P href then make_absolute_href P href else href)
      in case io href1 of
           Inl e \<Rightarrow> (Inl (CollaboratorError e), h)
         | Inr d \<Rightarrow> from_dict P d h)"

subsection \<open>An instance of the collaborators\<close>

text \<open>
  Modelled from the spec: \<^verbatim>\<open>identify_stac_object_type\<close>, \<^verbatim>\<open>pystac.Item\<close>, the href
  utilities and \<^verbatim>\<open>StacIO\<close> are not in the source file. The theorems below hold for every
  collaborator; this instance, the least the spec's contracts ask for, instantiates them
  at concrete inputs. The type identifier reads the \<^verbatim>\<open>"type"\<close> field: the spec has
  \<^verbatim>\<open>"FeatureCollection"\<close> recognised as the collection of items and \<^verbatim>\<open>{"type": "Feature"}\<close>
  as a single record. An Item is the dictionary it was parsed from, which must be a
  \<^verbatim>\<open>"Feature"\<close>; it serialises to that dictionary and its clone is a copy of it.
\<close>

definition spec_identify :: "dict \<Rightarrow> STACObjectType option" where
  "spec_identify d =
     (case dict_get d ''type'' of
        Some (JStr t) \<Rightarrow>
          if t = ''FeatureCollection'' then Some ITEMCOLLECTION
          else if t = ''Feature'' then Some ITEM
          else if t = ''Collection'' then Some COLLECTION
          else if t = ''Catalog'' then Some CATALOG
          else None
      | _ \<Rightarrow> None)"

fun spec_Item_from_dict :: "json \<Rightarrow> string + dict" where
  "spec_Item_from_dict (JDict d) =
     (if dict_get d ''type'' = Some (JStr ''Feature'') then Inr d
      else Inl ''not an Item'')"
| "spec_Item_from_dict j = Inl ''not a dictionary''"

definition spec_pystac :: "(dict, string) pystac" where
  "spec_pystac =
     \<lparr>identify_stac_object_type = spec_identify,
      Item_from_dict = spec_Item_from_dict,
      Item_to_dict = (\<lambda>s. s),
      Item_clone = (\<lambda>s. s),
      is_absolute_href = (\<lambda>href. take 1 href = ''/''),
      make_absolute_href = (\<lambda>href. ''/'' @ href),
      StacIO_default = (\<lambda>href. Inl ''no such file'')\<rparr>"

subsection \<open>Vocabulary of the properties\<close>

text \<open>
  An item-like the constructor can take: an Item of the store, or a value that
  \<^verbatim>\<open>Item.from_dict\<close> parses (the raw dictionary representation of an Item).
\<close>

fun item_like_ok :: "('i, 'e) pystac \<Rightarrow> 'i heap \<Rightarrow> ItemLike \<Rightarrow> bool" where
  "item_like_ok P h (ItemObj a) = item_valid h a"
| "item_like_ok P h (Raw j) = (case Item_from_dict P j of Inl e \<Rightarrow> False | Inr s \<Rightarrow> True)"

text \<open>The \<^verbatim>\<open>extra_fields\<close> argument of the constructor: \<^verbatim>\<open>None\<close> or a dictionary of the store.\<close>

definition extra_fields_ok :: "'i heap \<Rightarrow> dict_ref option \<Rightarrow> bool" where
  "extra_fields_ok h ef = (case ef of None \<Rightarrow> True | Some r \<Rightarrow> dict_valid h r)"

text \<open>A new object: one of \<open>h'\<close> that \<open>h\<close> does not hold.\<close>

definition is_new :: "'i heap \<Rightarrow> 'i heap \<Rightarrow> item_ref \<Rightarrow> bool" where
  "is_new h h' r = (\<not> item_valid h r \<and> item_valid h' r)"

definition is_new_dict :: "'i heap \<Rightarrow> 'i heap \<Rightarrow> dict_ref \<Rightarrow> bool" where
  "is_new_dict h h' r = (\<not> dict_valid h r \<and> dict_valid h' r)"

text \<open>
  What the constructor stores for an input element: an Item kept by reference, a new
  object holding the clone of an Item, or a new object holding the parsed dictionary.
\<close>

fun stored_as :: "('i, 'e) pystac \<Rightarrow> bool \<Rightarrow> 'i heap \<Rightarrow> 'i heap \<Rightarrow> ItemLike \<Rightarrow> item_ref \<Rightarrow> bool" where
  "stored_as P clone_items h h' (ItemObj a) r =
     (if clone_items
      then is_new h h' r \<and> item_objs h' ! r = Item_clone P (item_objs h ! a)
      else r = a)"
| "stored_as P clone_items h h' (Raw j) r =
     (is_new h h' r \<and> Item_from_dict P j = Inr (item_objs h' ! r))"

text \<open>
  Each element once, at the place of its first occurrence: the items of a sum as the
  specification words them, written without the loop.
\<close>

fun first_occurrences :: "'a list \<Rightarrow> 'a list" where
  "first_occurrences [] = []"
| "first_occurrences (x # xs) = x # removeAll x (first_occurrences xs)"

text \<open>A dictionary without the two structural keys of the serialised form.\<close>

definition reserved_free :: "dict \<Rightarrow> bool" where
  "reserved_free d = (''type'' \<notin> set (dict_keys d) \<and> ''features'' \<notin> set (dict_keys d))"


subsection \<open>Concrete objects\<close>

text \<open>
  The inputs of the instances below: a store with three Items \<open>x\<close>, \<open>y\<close>, \<open>z\<close> (addresses
  0, 1, 2) and two dictionaries (address 0 with a licence, address 1 binding
  \<^verbatim>\<open>"type"\<close>), a serialised collection with one item and one extra field, and a storage
  that holds it at \<^verbatim>\<open>/a.json\<close>.
\<close>

definition item_x :: dict where
  "item_x = [(''type'', JStr ''Feature''), (''id'', JStr ''x'')]"

definition item_y :: dict where
  "item_y = [(''type'', JStr ''Feature''), (''id'', JStr ''y'')]"

definition item_z :: dict where
  "item_z = [(''type'', JStr ''Feature''), (''id'', JStr ''z'')]"

definition store0 :: "dict heap" where
  "store0 = \<lparr>item_objs = [item_x, item_y, item_z],
             dict_objs = [[(''license'', JStr ''CC-BY'')], [(''type'', JStr ''Other'')]]\<rparr>"

definition doc0 :: dict where
  "doc0 = [(''type'', JStr ''FeatureCollection''),
           (''features'', JList [JDict item_x]),
           (''license'', JStr ''CC-BY'')]"

definition io0 :: "string StacIO" where
  "io0 = (\<lambda>href. if href = ''/a.json'' then Inr doc0 else Inl ''no such file'')"

section \<open>Properties\<close>

subsection \<open>Dictionaries\<close>


lemma dict_get_Some_key: "dict_get d k = Some v \<Longrightarrow> k \<in> set (dict_keys d)"
  by (induction d) (auto simp: dict_keys_def split: if_splits)


lemma dict_setitem_new: "k \<notin> set (dict_keys d) \<Longrightarrow> dict_setitem d k v = d @ [(k, v)]"
  by (induction d) (auto simp: dict_keys_def)

lemma dict_merge_disjoint:
  "dict_ok extra \<Longrightarrow> set (dict_keys extra) \<inter> set (dict_keys base) = {}
     \<Longrightarrow> dict_merge base extra = base @ extra"
proof (induction extra arbitrary: base)
  case Nil
  then show ?case by simp
next
  case (Cons p extra)
  obtain k v where p: "p = (k, v)" by (cases p)
  from Cons.prems p have new: "k \<notin> set (dict_keys base)"
    by (auto simp: dict_keys_def)
  from Cons.prems p have ok: "dict_ok extra"
    and disj: "set (dict_keys extra) \<inter> set (dict_keys (base @ [(k, v)])) = {}"
    by (auto simp: dict_ok_def dict_keys_def)
  show ?case
    using Cons.IH [OF ok disj] new p by (simp add: dict_setitem_new)
qed


lemma dict_keys_other_fields:
  "set (dict_keys (other_fields d)) = set (dict_keys d) - {''features'', ''type''}"
  by (induction d) (auto simp: other_fields_def dict_keys_def)


subsection \<open>Stores\<close>

lemma take_eq_length:
  assumes "take (length xs) ys = xs"
  shows "length xs \<le> length ys"
proof -
  have "length (take (length xs) ys) = length xs"
    using assms by simp
  then show ?thesis by simp
qed

lemma upt_add_Suc: "[n ..< Suc (n + k)] = n # [Suc n ..< Suc (n + k)]"
  by (simp add: upt_conv_Cons del: upt_Suc)

lemma take_eq_nth: "take (length xs) ys = xs \<Longrightarrow> i < length xs \<Longrightarrow> ys ! i = xs ! i"
  by (metis nth_take)

lemma extends_refl: "extends h h"
  by (simp add: extends_def)

lemma take_take_eq:
  "take (length xs) ys = xs \<Longrightarrow> take (length ys) zs = ys \<Longrightarrow> take (length xs) zs = xs"
  by (metis take_eq_length min.absorb1 take_take)

lemma extends_trans: "extends h h1 \<Longrightarrow> extends h1 h2 \<Longrightarrow> extends h h2"
  unfolding extends_def by (auto intro: take_take_eq)

lemma extends_item_valid: "extends h h' \<Longrightarrow> item_valid h a \<Longrightarrow> item_valid h' a"
  unfolding extends_def item_valid_def using take_eq_length by fastforce

lemma extends_dict_valid: "extends h h' \<Longrightarrow> dict_valid h r \<Longrightarrow> dict_valid h' r"
  unfolding extends_def dict_valid_def using take_eq_length by fastforce

lemma extends_item_nth: "extends h h' \<Longrightarrow> item_valid h a \<Longrightarrow> item_objs h' ! a = item_objs h ! a"
  unfolding extends_def item_valid_def by (simp add: take_eq_nth)

lemma extends_dict_nth: "extends h h' \<Longrightarrow> dict_valid h r \<Longrightarrow> dict_objs h' ! r = dict_objs h ! r"
  unfolding extends_def dict_valid_def by (simp add: take_eq_nth)

lemma extends_item_length: "extends h h' \<Longrightarrow> length (item_objs h) \<le> length (item_objs h')"
  unfolding extends_def by (simp add: take_eq_length)

lemma extends_append:
  "extends h (h\<lparr>item_objs := item_objs h @ ss, dict_objs := dict_objs h @ ds\<rparr>)"
  by (simp add: extends_def)

lemma extends_append_items: "extends h (h\<lparr>item_objs := item_objs h @ ss\<rparr>)"
  by (simp add: extends_def)

lemma extends_append_dicts: "extends h (h\<lparr>dict_objs := dict_objs h @ ds\<rparr>)"
  by (simp add: extends_def)

subsection \<open>The loops, in closed form\<close>

text \<open>
  On valid references each of the module's comprehensions runs to its end. New objects
  take the addresses from the length of the store upwards, in the order of the list.
\<close>

lemma map_comp_to_dict:
  "\<forall>a\<in>set as. item_valid h a \<Longrightarrow>
     map_comp (Item_to_dict_call P) as h =
       (Inr (map (\<lambda>a. JDict (Item_to_dict P (item_objs h ! a))) as), h)"
  by (induction as) (auto simp: Item_to_dict_call_def)

lemma map_comp_clone:
  "\<forall>a\<in>set as. item_valid h a \<Longrightarrow>
     map_comp (Item_clone_call P) as h =
       (Inr [length (item_objs h) ..< length (item_objs h) + length as],
        h\<lparr>item_objs := item_objs h @ map (\<lambda>a. Item_clone P (item_objs h ! a)) as\<rparr>)"
proof (induction as arbitrary: h)
  case Nil
  then show ?case by simp
next
  case (Cons a as)
  let ?h1 = "h\<lparr>item_objs := item_objs h @ [Item_clone P (item_objs h ! a)]\<rparr>"
  from Cons.prems have a: "item_valid h a" and as: "\<forall>b\<in>set as. item_valid h b"
    by auto
  have step: "Item_clone_call P a h = (Inr (length (item_objs h)), ?h1)"
    using a by (simp add: Item_clone_call_def new_item_def)
  have valid1: "\<forall>b\<in>set as. item_valid ?h1 b"
    using as by (auto simp: item_valid_def)
  have same: "map (\<lambda>b. Item_clone P (item_objs ?h1 ! b)) as =
              map (\<lambda>b. Item_clone P (item_objs h ! b)) as"
    using as by (auto simp: item_valid_def nth_append)
  show ?case
    using Cons.IH [OF valid1] step same by (simp add: upt_add_Suc del: upt_Suc)
qed


lemma map_comp_keep:
  "map_comp (map_item P False) (map ItemObj as) h = (Inr as, h)"
  by (induction as) auto

lemma map_comp_map_item_clone:
  "map_comp (map_item P True) (map ItemObj as) h = map_comp (Item_clone_call P) as h"
  by (induction as arbitrary: h) (auto split: prod.splits sum.splits)

subsection \<open>The constructor\<close>

lemma extra_fields_or_empty_None:
  "extra_fields_or_empty None h =
     (Inr (length (dict_objs h)), h\<lparr>dict_objs := dict_objs h @ [[]]\<rparr>)"
  by (simp add: extra_fields_or_empty_def new_dict_def)

lemma extra_fields_or_empty_Some:
  "dict_valid h r \<Longrightarrow>
     extra_fields_or_empty (Some r) h =
       (if dict_objs h ! r = []
        then (Inr (length (dict_objs h)), h\<lparr>dict_objs := dict_objs h @ [[]]\<rparr>)
        else (Inr r, h))"
  by (simp add: extra_fields_or_empty_def new_dict_def)

lemma init_keep_None:
  "ItemCollection_init P (map ItemObj as) None False h =
     (Inr \<lparr>items = as, extra_fields = length (dict_objs h)\<rparr>,
      h\<lparr>dict_objs := dict_objs h @ [[]]\<rparr>)"
  by (simp add: ItemCollection_init_def map_comp_keep extra_fields_or_empty_None)

lemma init_keep_Some:
  "dict_valid h r \<Longrightarrow>
     ItemCollection_init P (map ItemObj as) (Some r) False h =
       (if dict_objs h ! r = []
        then (Inr \<lparr>items = as, extra_fields = length (dict_objs h)\<rparr>,
              h\<lparr>dict_objs := dict_objs h @ [[]]\<rparr>)
        else (Inr \<lparr>items = as, extra_fields = r\<rparr>, h))"
  by (simp add: ItemCollection_init_def map_comp_keep extra_fields_or_empty_Some)

text \<open>What the constructor stores as extra fields: the content of the argument.\<close>

lemma extra_fields_or_empty_content:
  assumes "extra_fields_or_empty ef h = (Inr r, h')"
  shows "dict_valid h' r \<and> item_objs h' = item_objs h \<and> extends h h' \<and>
         dict_objs h' ! r = (case ef of None \<Rightarrow> [] | Some r0 \<Rightarrow> dict_objs h ! r0)"
  using assms
  by (auto simp: extra_fields_or_empty_def new_dict_def dict_valid_def extends_def nth_append
           split: option.splits if_splits)

lemma map_item_frame:
  assumes "map_item P cl x h = (res, h')"
  shows "dict_objs h' = dict_objs h \<and> extends h h'"
  using assms
  by (cases x)
     (auto simp: Item_clone_call_def Item_from_dict_call_def new_item_def extends_def
           split: if_splits sum.splits)

lemma map_comp_frame:
  assumes "\<And>x h res h'. f x h = (res, h') \<Longrightarrow> dict_objs h' = dict_objs h \<and> extends h h'"
    and "map_comp f xs h = (res, h')"
  shows "dict_objs h' = dict_objs h \<and> extends h h'"
  using assms(2)
proof (induction xs arbitrary: h res h')
  case Nil
  then show ?case by (simp add: extends_refl)
next
  case (Cons x xs)
  obtain r1 h1 where step: "f x h = (r1, h1)" by (cases "f x h")
  note fr1 = assms(1) [OF step]
  show ?case
  proof (cases r1)
    case (Inl e)
    with Cons.prems step fr1 show ?thesis by auto
  next
    case (Inr y)
    obtain r2 h2 where rest: "map_comp f xs h1 = (r2, h2)" by (cases "map_comp f xs h1")
    note fr2 = Cons.IH [OF rest]
    from Cons.prems step Inr rest have "h' = h2"
      by (cases r2) auto
    with fr1 fr2 show ?thesis
      by (auto intro: extends_trans)
  qed
qed

lemma init_Inr:
  fixes P :: "('i, 'e) pystac"
  assumes "ItemCollection_init P its ef cl h = (Inr c, h')"
  shows "\<exists>h1. map_comp (map_item P cl) its h = (Inr (items c), h1) \<and>
              extra_fields_or_empty ef h1 = (Inr (extra_fields c) :: 'e error + dict_ref, h')"
  using assms
  by (auto simp: ItemCollection_init_def split: prod.splits sum.splits)

lemma init_content:
  fixes P :: "('i, 'e) pystac"
  assumes "ItemCollection_init P its ef cl h = (Inr c, h')"
  shows "dict_valid h' (extra_fields c) \<and> extends h h' \<and>
         dict_objs h' ! extra_fields c = (case ef of None \<Rightarrow> [] | Some r0 \<Rightarrow> dict_objs h ! r0)"
proof -
  from init_Inr [OF assms] obtain h1 where
    m: "map_comp (map_item P cl) its h = (Inr (items c), h1)"
    and e: "extra_fields_or_empty ef h1 = (Inr (extra_fields c) :: 'e error + dict_ref, h')"
    by blast
  have fr: "dict_objs h1 = dict_objs h \<and> extends h h1"
    using map_comp_frame [OF _ m] map_item_frame by blast
  from extra_fields_or_empty_content [OF e] fr show ?thesis
    by (auto intro: extends_trans split: option.splits)
qed

lemma item_like_ok_extends: "extends h h1 \<Longrightarrow> item_like_ok P h x \<Longrightarrow> item_like_ok P h1 x"
  by (cases x) (auto intro: extends_item_valid)

lemma map_item_ok:
  assumes "item_like_ok P h x"
  shows "\<exists>r h1. map_item P cl x h = (Inr r, h1) \<and> extends h h1 \<and>
           dict_objs h1 = dict_objs h \<and> stored_as P cl h h1 x r \<and>
           (r < length (item_objs h) \<or> r = length (item_objs h) \<and> length (item_objs h1) = Suc r)"
  using assms
  by (cases x)
     (auto simp: Item_clone_call_def Item_from_dict_call_def new_item_def extends_def
                 is_new_def item_valid_def
           split: sum.splits)

lemma stored_as_later:
  assumes "extends h h1" "extends h1 h2" "item_like_ok P h x" "stored_as P cl h h1 x r"
  shows "stored_as P cl h h2 x r"
  using assms extends_item_valid [OF assms(2)] extends_item_nth [OF assms(2)]
  by (cases x) (auto simp: is_new_def)

lemma stored_as_earlier:
  assumes "extends h h1" "extends h1 h2" "item_like_ok P h x" "stored_as P cl h1 h2 x r"
  shows "stored_as P cl h h2 x r"
  using assms extends_item_valid [OF assms(1)] extends_item_nth [OF assms(1)]
  by (cases x) (auto simp: is_new_def)

lemma stored_as_range:
  assumes "item_like_ok P h x" "stored_as P cl h1 h2 x r"
  shows "r < length (item_objs h) \<or> length (item_objs h1) \<le> r"
  using assms by (cases x) (auto simp: is_new_def item_valid_def split: if_splits)

lemma map_item_all:
  assumes "\<forall>x\<in>set xs. item_like_ok P h x"
  shows "\<exists>refs h'. map_comp (map_item P cl) xs h = (Inr refs, h') \<and> extends h h' \<and>
           dict_objs h' = dict_objs h \<and> list_all2 (stored_as P cl h h') xs refs \<and>
           distinct (filter (\<lambda>r. \<not> item_valid h r) refs)"
  using assms
proof (induction xs arbitrary: h)
  case Nil
  then show ?case by (simp add: extends_refl)
next
  case (Cons x xs)
  from Cons.prems have x: "item_like_ok P h x" and xs: "\<forall>x\<in>set xs. item_like_ok P h x"
    by auto
  from map_item_ok [OF x, of cl] obtain r h1 where
    step: "map_item P cl x h = (Inr r, h1)" and e1: "extends h h1"
    and d1: "dict_objs h1 = dict_objs h" and s1: "stored_as P cl h h1 x r"
    and r: "r < length (item_objs h) \<or> r = length (item_objs h) \<and> length (item_objs h1) = Suc r"
    by blast
  from xs e1 have xs1: "\<forall>x\<in>set xs. item_like_ok P h1 x"
    by (auto intro: item_like_ok_extends)
  from Cons.IH [OF xs1] obtain refs h' where
    rest: "map_comp (map_item P cl) xs h1 = (Inr refs, h')" and e2: "extends h1 h'"
    and d2: "dict_objs h' = dict_objs h1"
    and s2: "list_all2 (stored_as P cl h1 h') xs refs"
    and dist: "distinct (filter (\<lambda>r. \<not> item_valid h1 r) refs)"
    by blast
  have run: "map_comp (map_item P cl) (x # xs) h = (Inr (r # refs), h')"
    using step rest by simp
  have ext: "extends h h'"
    using e1 e2 by (rule extends_trans)
  have head: "stored_as P cl h h' x r"
    using stored_as_later [OF e1 e2 x s1] .
  have tail: "list_all2 (stored_as P cl h h') xs refs"
    using s2 xs
    by (auto simp: list_all2_conv_all_nth all_set_conv_all_nth
             intro: stored_as_earlier [OF e1 e2])
  have range: "\<forall>q\<in>set refs. q < length (item_objs h) \<or> length (item_objs h1) \<le> q"
  proof
    fix q
    assume "q \<in> set refs"
    then obtain i where i: "i < length refs" and q: "q = refs ! i"
      by (auto simp: in_set_conv_nth)
    from s2 i have "stored_as P cl h1 h' (xs ! i) (refs ! i)" and "i < length xs"
      by (auto simp: list_all2_conv_all_nth)
    moreover from this xs have "item_like_ok P h (xs ! i)"
      by simp
    ultimately show "q < length (item_objs h) \<or> length (item_objs h1) \<le> q"
      using q stored_as_range by blast
  qed
  have len: "length (item_objs h) \<le> length (item_objs h1)"
    using e1 by (rule extends_item_length)
  have same: "filter (\<lambda>q. \<not> item_valid h q) refs = filter (\<lambda>q. \<not> item_valid h1 q) refs"
    using range len by (intro filter_cong) (auto simp: item_valid_def)
  have fresh: "\<not> item_valid h r \<Longrightarrow> r \<notin> set (filter (\<lambda>q. \<not> item_valid h1 q) refs)"
    using r by (auto simp: item_valid_def)
  have "distinct (filter (\<lambda>q. \<not> item_valid h q) (r # refs))"
    using dist same fresh by simp
  with run ext d1 d2 head tail show ?case
    by simp
qed

lemma extra_fields_or_empty_ok:
  assumes "extra_fields_ok h ef"
  shows "\<exists>r h'. extra_fields_or_empty ef h = (Inr r, h')"
  using assms
  by (auto simp: extra_fields_ok_def extra_fields_or_empty_def new_dict_def split: option.splits)

lemma extra_fields_ok_extends: "extends h h' \<Longrightarrow> extra_fields_ok h ef \<Longrightarrow> extra_fields_ok h' ef"
  by (auto simp: extra_fields_ok_def intro: extends_dict_valid split: option.splits)

lemma init_ok:
  fixes P :: "('i, 'e) pystac"
  assumes "\<forall>x\<in>set its. item_like_ok P h x" and "extra_fields_ok h ef"
  shows "\<exists>c h'. ItemCollection_init P its ef cl h = (Inr c, h') \<and> extends h h' \<and>
           list_all2 (stored_as P cl h h') its (items c) \<and>
           distinct (filter (\<lambda>r. \<not> item_valid h r) (items c))"
proof -
  from map_item_all [OF assms(1), of cl] obtain refs h1 where
    m: "map_comp (map_item P cl) its h = (Inr refs, h1)" and e1: "extends h h1"
    and s: "list_all2 (stored_as P cl h h1) its refs"
    and d: "distinct (filter (\<lambda>r. \<not> item_valid h r) refs)"
    by blast
  from extra_fields_or_empty_ok [OF extra_fields_ok_extends [OF e1 assms(2)]]
  obtain r h2 where e: "extra_fields_or_empty ef h1 = (Inr r :: 'e error + dict_ref, h2)"
    by blast
  from extra_fields_or_empty_content [OF e] have e2: "extends h1 h2"
    by simp
  have run: "ItemCollection_init P its ef cl h = (Inr \<lparr>items = refs, extra_fields = r\<rparr>, h2)"
    using m e by (simp add: ItemCollection_init_def)
  have "list_all2 (stored_as P cl h h2) its refs"
    using s assms(1)
    by (auto simp: list_all2_conv_all_nth all_set_conv_all_nth
             intro: stored_as_later [OF e1 e2])
  with run d e1 e2 show ?thesis
    by (auto intro: extends_trans)
qed

subsection \<open>Addition with an operand of another type\<close>

text \<open>
  Claim C9. For every ItemCollection and every operand that is not an ItemCollection
  instance, \<^verbatim>\<open>c + other\<close> raises no exception and produces no collection: it returns
  the constant \<^verbatim>\<open>NotImplemented\<close>, and the store is as it was.
\<close>

theorem add_not_implemented:
  "\<not> isinstance_ItemCollection other \<Longrightarrow>
     ItemCollection_add P self other h = (Inr NotImplemented, h)"
  by (cases other) simp_all

theorem add_not_implemented_witness:
  "\<not> isinstance_ItemCollection (AValue (JInt 1)) \<and>
   ItemCollection_add spec_pystac \<lparr>items = [0, 1], extra_fields = 0\<rparr> (AValue (JInt 1)) store0
     = (Inr NotImplemented, store0)"
  using add_not_implemented [of "AValue (JInt 1)" spec_pystac "\<lparr>items = [0, 1], extra_fields = 0\<rparr>" store0]
  by simp

subsection \<open>Construction\<close>

text \<open>
  Claim C6. For every list of \<open>N\<close> item-likes, each an Item of the store or a value that
  \<^verbatim>\<open>Item.from_dict\<close> parses, the constructor returns a collection of length \<open>N\<close>
  whose \<open>k\<close>-th item comes from the \<open>k\<close>-th input: a raw dictionary is parsed into a
  new object, an Item is cloned into a new object when \<^verbatim>\<open>clone_items\<close> is true and is
  stored as the same reference when it is false. The new objects are pairwise different
  and the objects of the store before the call are unchanged.
\<close>

theorem init_keeps_order:
  assumes "\<forall>x\<in>set its. item_like_ok P h x" and "extra_fields_ok h ef"
  shows "\<exists>c h'. ItemCollection_init P its ef clone_items h = (Inr c, h') \<and>
           ItemCollection_len c = length its \<and>
           (\<forall>k<length its. stored_as P clone_items h h' (its ! k) (items c ! k)) \<and>
           distinct (filter (\<lambda>r. \<not> item_valid h r) (items c)) \<and>
           extends h h'"
proof -
  from init_ok [OF assms, of clone_items] obtain c h' where
    "ItemCollection_init P its ef clone_items h = (Inr c, h')" "extends h h'"
    "list_all2 (stored_as P clone_items h h') its (items c)"
    "distinct (filter (\<lambda>r. \<not> item_valid h r) (items c))"
    by blast
  then show ?thesis
    by (auto simp: ItemCollection_len_def list_all2_conv_all_nth)
qed

theorem init_keeps_order_witness:
  "item_like_ok spec_pystac store0 (ItemObj 0) \<and>
   item_like_ok spec_pystac store0 (Raw (JDict item_y)) \<and>
   extra_fields_ok store0 None \<and>
   (\<exists>c h'. ItemCollection_init spec_pystac [ItemObj 0, Raw (JDict item_y)] None True store0
              = (Inr c, h') \<and>
            ItemCollection_len c = length [ItemObj 0, Raw (JDict item_y)] \<and>
            (\<forall>k<length [ItemObj 0, Raw (JDict item_y)].
               stored_as spec_pystac True store0 h' ([ItemObj 0, Raw (JDict item_y)] ! k) (items c ! k)) \<and>
            distinct (filter (\<lambda>r. \<not> item_valid store0 r) (items c)) \<and>
            extends store0 h')"
proof -
  have a: "\<forall>x\<in>set [ItemObj 0, Raw (JDict item_y)]. item_like_ok spec_pystac store0 x"
    by (simp add: spec_pystac_def store0_def item_valid_def item_y_def)
  have b: "extra_fields_ok store0 None"
    by (simp add: extra_fields_ok_def)
  from init_keeps_order [OF a b, of True] a b show ?thesis
    by simp
qed

subsection \<open>Membership\<close>

lemma init_singleton_keep:
  fixes P :: "('i, 'e) pystac"
  assumes "extra_fields_ok h ef"
  shows "\<exists>r h'. ItemCollection_init P [ItemObj x] ef False h
                   = (Inr \<lparr>items = [x], extra_fields = r\<rparr>, h') \<and> extends h h'"
proof -
  from extra_fields_or_empty_ok [OF assms]
  obtain r h' where e: "extra_fields_or_empty ef h = (Inr r :: 'e error + dict_ref, h')"
    by blast
  from extra_fields_or_empty_content [OF e] have "extends h h'"
    by simp
  with e show ?thesis
    by (simp add: ItemCollection_init_def)
qed

lemma init_singleton_clone:
  fixes P :: "('i, 'e) pystac"
  assumes "item_valid h x" and "extra_fields_ok h ef"
  shows "\<exists>r h'. ItemCollection_init P [ItemObj x] ef True h
                   = (Inr \<lparr>items = [length (item_objs h)], extra_fields = r\<rparr>, h') \<and>
                 extends h h' \<and>
                 item_objs h' = item_objs h @ [Item_clone P (item_objs h ! x)]"
proof -
  let ?h1 = "h\<lparr>item_objs := item_objs h @ [Item_clone P (item_objs h ! x)]\<rparr>"
  have e1: "extends h ?h1"
    by (rule extends_append_items)
  from extra_fields_or_empty_ok [OF extra_fields_ok_extends [OF e1 assms(2)]]
  obtain r h' where e: "extra_fields_or_empty ef ?h1 = (Inr r :: 'e error + dict_ref, h')"
    by blast
  from extra_fields_or_empty_content [OF e]
  have e2: "extends ?h1 h'" and it: "item_objs h' = item_objs ?h1"
    by simp_all
  have "ItemCollection_init P [ItemObj x] ef True h
          = (Inr \<lparr>items = [length (item_objs h)], extra_fields = r\<rparr>, h')"
    using assms(1) e by (simp add: ItemCollection_init_def Item_clone_call_def new_item_def)
  with e1 e2 it show ?thesis
    by (auto intro: extends_trans)
qed

text \<open>
  Claim C7. Membership is decided by reference identity, never by the state of the
  records: an Item is a member exactly when its reference is among the stored ones. For
  every Item \<open>x\<close> of the store, \<open>x\<close> is a member of \<^verbatim>\<open>ItemCollection([x], clone_items=False)\<close>,
  and \<open>x\<close> is not a member of \<^verbatim>\<open>ItemCollection([x], clone_items=True)\<close>, which stores a
  new object whose state is the clone of the state of \<open>x\<close>.
\<close>

theorem contains_by_identity:
  assumes "item_valid h x" and "extra_fields_ok h ef"
  shows "(ItemCollection_contains c0 (AnItem a) \<longleftrightarrow> a \<in> set (items c0)) \<and>
         (\<exists>c h'. ItemCollection_init P [ItemObj x] ef False h = (Inr c, h') \<and>
                  ItemCollection_contains c (AnItem x)) \<and>
         (\<exists>c h' x'. ItemCollection_init P [ItemObj x] ef True h = (Inr c, h') \<and>
                  items c = [x'] \<and> x' \<noteq> x \<and>
                  item_objs h' ! x = item_objs h ! x \<and>
                  item_objs h' ! x' = Item_clone P (item_objs h ! x) \<and>
                  \<not> ItemCollection_contains c (AnItem x))"
proof -
  from init_singleton_keep [OF assms(2), of P x] have keep:
    "\<exists>c h'. ItemCollection_init P [ItemObj x] ef False h = (Inr c, h') \<and>
            ItemCollection_contains c (AnItem x)"
    by auto
  from init_singleton_clone [OF assms, of P] obtain r h' where
    run: "ItemCollection_init P [ItemObj x] ef True h
            = (Inr \<lparr>items = [length (item_objs h)], extra_fields = r\<rparr>, h')"
    and it: "item_objs h' = item_objs h @ [Item_clone P (item_objs h ! x)]"
    by blast
  from assms(1) have x: "x < length (item_objs h)"
    by (simp add: item_valid_def)
  have "\<exists>c h' x'. ItemCollection_init P [ItemObj x] ef True h = (Inr c, h') \<and>
          items c = [x'] \<and> x' \<noteq> x \<and>
          item_objs h' ! x = item_objs h ! x \<and>
          item_objs h' ! x' = Item_clone P (item_objs h ! x) \<and>
          \<not> ItemCollection_contains c (AnItem x)"
    using run it x by (auto simp: nth_append)
  with keep show ?thesis
    by simp
qed

theorem contains_by_identity_witness:
  "item_valid store0 0 \<and> extra_fields_ok store0 None \<and>
   (\<exists>c h'. ItemCollection_init spec_pystac [ItemObj 0] None False store0 = (Inr c, h') \<and>
            ItemCollection_contains c (AnItem 0)) \<and>
   (\<exists>c h' x'. ItemCollection_init spec_pystac [ItemObj 0] None True store0 = (Inr c, h') \<and>
            items c = [x'] \<and> x' \<noteq> 0 \<and>
            item_objs h' ! x' = item_objs h' ! 0 \<and>
            \<not> ItemCollection_contains c (AnItem 0))"
proof -
  have a: "item_valid store0 0"
    by (simp add: item_valid_def store0_def)
  have b: "extra_fields_ok store0 None"
    by (simp add: extra_fields_ok_def)
  from contains_by_identity [OF a b, of _ _ spec_pystac] a b show ?thesis
    by (auto simp: spec_pystac_def)
qed

subsection \<open>The type check of \<^verbatim>\<open>from_dict\<close>\<close>

lemma map_comp_from_dict_error:
  assumes "map_comp (Item_from_dict_call P) js h = (Inl e, h')"
  shows "\<exists>e'. e = CollaboratorError e'"
  using assms
proof (induction js arbitrary: h)
  case Nil
  then show ?case by simp
next
  case (Cons j js)
  then show ?case
    by (auto simp: Item_from_dict_call_def new_item_def split: sum.splits prod.splits)
qed

lemma py_iter_error:
  "py_iter j = Inl e \<Longrightarrow> e = TypeError ''object is not iterable''"
  by (cases j) auto

lemma from_dict_wrong:
  "identify_stac_object_type P d \<noteq> Some ITEMCOLLECTION \<Longrightarrow>
     from_dict P d h = (Inl (STACTypeError ''Dict is not a valid ItemCollection''), h)"
  by (simp add: from_dict_def)

lemma from_dict_right:
  fixes P :: "('i, 'e) pystac"
  assumes "identify_stac_object_type P d = Some ITEMCOLLECTION"
  shows "fst (from_dict P d h) \<noteq> Inl (STACTypeError msg)"
proof -
  let ?v = "case dict_get d ''features'' of None \<Rightarrow> JList [] | Some v \<Rightarrow> v"
  show ?thesis
  proof (cases "py_iter ?v :: 'e error + json list")
    case (Inl e)
    with assms py_iter_error [OF Inl] show ?thesis
      by (simp add: from_dict_def)
  next
    case (Inr fs)
    obtain res h1 where m: "map_comp (Item_from_dict_call P) fs h = (res, h1)"
      by (cases "map_comp (Item_from_dict_call P) fs h")
    show ?thesis
    proof (cases res)
      case (Inl e)
      with m map_comp_from_dict_error [of P fs h e h1] assms Inr show ?thesis
        by (auto simp: from_dict_def)
    next
      case refs: (Inr refs)
      have "dict_valid (h1\<lparr>dict_objs := dict_objs h1 @ [other_fields d]\<rparr>) (length (dict_objs h1))"
        by (simp add: dict_valid_def)
      from init_keep_Some [OF this, of P refs] assms Inr m refs show ?thesis
        by (simp add: from_dict_def new_dict_def)
    qed
  qed
qed

text \<open>
  Claim C3. \<^verbatim>\<open>ItemCollection.from_dict(d)\<close> raises the module's \<^verbatim>\<open>STACTypeError\<close> if and
  only if the type identifier does not report \<open>d\<close> as \<^verbatim>\<open>ITEMCOLLECTION\<close> (an error of
  \<^verbatim>\<open>Item.from_dict\<close> is let through as the collaborator's own). When it raises, the store
  is as it was: nothing was parsed or built before the check. In particular
  \<^verbatim>\<open>{"type": "Feature"}\<close>, which the identifier does not report as a collection of
  items, is rejected with that error.
\<close>

theorem from_dict_wrong_type:
  "((\<exists>msg. fst (from_dict P d h) = Inl (STACTypeError msg)) \<longleftrightarrow>
      identify_stac_object_type P d \<noteq> Some ITEMCOLLECTION) \<and>
   (identify_stac_object_type P d \<noteq> Some ITEMCOLLECTION \<longrightarrow>
      from_dict P d h = (Inl (STACTypeError ''Dict is not a valid ItemCollection''), h)) \<and>
   (identify_stac_object_type P [(''type'', JStr ''Feature'')] \<noteq> Some ITEMCOLLECTION \<longrightarrow>
      from_dict P [(''type'', JStr ''Feature'')] h
        = (Inl (STACTypeError ''Dict is not a valid ItemCollection''), h))"
proof -
  have "(\<exists>msg. fst (from_dict P d h) = Inl (STACTypeError msg)) \<longleftrightarrow>
          identify_stac_object_type P d \<noteq> Some ITEMCOLLECTION"
  proof (cases "identify_stac_object_type P d = Some ITEMCOLLECTION")
    case True
    with from_dict_right [OF True, of h] show ?thesis
      by simp
  next
    case False
    with from_dict_wrong [OF False, of h] show ?thesis
      by simp
  qed
  then show ?thesis
    by (simp add: from_dict_wrong)
qed

theorem from_dict_wrong_type_witness:
  "identify_stac_object_type spec_pystac [(''type'', JStr ''Feature'')] = Some ITEM \<and>
   from_dict spec_pystac [(''type'', JStr ''Feature'')] store0
     = (Inl (STACTypeError ''Dict is not a valid ItemCollection''), store0) \<and>
   identify_stac_object_type spec_pystac [(''type'', JStr ''FeatureCollection'')] = Some ITEMCOLLECTION \<and>
   (\<nexists>msg. fst (from_dict spec_pystac [(''type'', JStr ''FeatureCollection'')] store0)
             = Inl (STACTypeError msg))"
  using from_dict_wrong_type [of spec_pystac "[(''type'', JStr ''Feature'')]" store0]
        from_dict_wrong_type [of spec_pystac "[(''type'', JStr ''FeatureCollection'')]" store0]
  by (simp add: spec_pystac_def spec_identify_def)

subsection \<open>Serialisation\<close>

lemma to_dict_eq:
  assumes "\<forall>a\<in>set (items c). item_valid h a" and "dict_valid h (extra_fields c)"
  shows "to_dict P c h =
           (Inr (dict_merge
                   [(''type'', JStr ''FeatureCollection''),
                    (''features'', JList (map (\<lambda>a. JDict (Item_to_dict P (item_objs h ! a))) (items c)))]
                   (dict_objs h ! extra_fields c)), h)"
  using assms by (simp add: to_dict_def map_comp_to_dict)

text \<open>
  Claim C5, amended. For every ItemCollection whose \<^verbatim>\<open>extra_fields\<close> binds neither
  \<^verbatim>\<open>"type"\<close> nor \<^verbatim>\<open>"features"\<close>, \<^verbatim>\<open>to_dict()\<close> is the dictionary with, in this order,
  \<^verbatim>\<open>"type"\<close> bound to \<^verbatim>\<open>"FeatureCollection"\<close>, \<^verbatim>\<open>"features"\<close> bound to the list of the
  items' own serialisations in stored order, and the entries of \<^verbatim>\<open>extra_fields\<close> in
  their iteration order. The store is unchanged.
\<close>

theorem to_dict_layout:
  assumes "\<forall>a\<in>set (items c). item_valid h a" and "dict_valid h (extra_fields c)"
    and "dict_ok (dict_objs h ! extra_fields c)"
    and "reserved_free (dict_objs h ! extra_fields c)"
  shows "to_dict P c h =
           (Inr ([(''type'', JStr ''FeatureCollection''),
                  (''features'', JList (map (\<lambda>a. JDict (Item_to_dict P (item_objs h ! a))) (items c)))]
                 @ dict_objs h ! extra_fields c), h)"
proof -
  let ?base = "[(''type'', JStr ''FeatureCollection''),
                (''features'', JList (map (\<lambda>a. JDict (Item_to_dict P (item_objs h ! a))) (items c)))]"
  have "set (dict_keys (dict_objs h ! extra_fields c)) \<inter> set (dict_keys ?base) = {}"
    using assms(4) by (auto simp: reserved_free_def dict_keys_def)
  from dict_merge_disjoint [OF assms(3) this] to_dict_eq [OF assms(1,2), of P]
  show ?thesis by simp
qed

theorem to_dict_layout_witness:
  "item_valid store0 0 \<and> item_valid store0 1 \<and> dict_valid store0 0 \<and>
   dict_ok (dict_objs store0 ! 0) \<and> reserved_free (dict_objs store0 ! 0) \<and>
   to_dict spec_pystac \<lparr>items = [0, 1], extra_fields = 0\<rparr> store0
     = (Inr [(''type'', JStr ''FeatureCollection''),
             (''features'', JList [JDict item_x, JDict item_y]),
             (''license'', JStr ''CC-BY'')], store0)"
proof -
  have a: "\<forall>a\<in>set (items \<lparr>items = [0, 1], extra_fields = 0\<rparr>). item_valid store0 a"
    by (simp add: item_valid_def store0_def)
  have b: "dict_valid store0 (extra_fields \<lparr>items = [0, 1], extra_fields = 0\<rparr>)"
    by (simp add: dict_valid_def store0_def)
  have c: "dict_ok (dict_objs store0 ! extra_fields \<lparr>items = [0, 1], extra_fields = 0\<rparr>)"
    by (simp add: dict_ok_def dict_keys_def store0_def)
  have d: "reserved_free (dict_objs store0 ! extra_fields \<lparr>items = [0, 1], extra_fields = 0\<rparr>)"
    by (simp add: reserved_free_def dict_keys_def store0_def)
  from to_dict_layout [OF a b c d, of spec_pystac] a b c d show ?thesis
    by (simp add: spec_pystac_def store0_def)
qed

text \<open>
  Without the condition the claim fails: the constructor takes an \<^verbatim>\<open>extra_fields\<close> that
  binds \<^verbatim>\<open>"type"\<close>, and then \<^verbatim>\<open>to_dict()\<close> binds \<^verbatim>\<open>"type"\<close> to that value.
\<close>

theorem to_dict_layout_counterexample:
  "ItemCollection_init spec_pystac [] (Some 1) True store0
     = (Inr \<lparr>items = [], extra_fields = 1\<rparr>, store0) \<and>
   to_dict spec_pystac \<lparr>items = [], extra_fields = 1\<rparr> store0
     = (Inr [(''type'', JStr ''Other''), (''features'', JList [])], store0) \<and>
   dict_get [(''type'', JStr ''Other''), (''features'', JList [])] ''type''
     \<noteq> Some (JStr ''FeatureCollection'')"
  by (simp add: ItemCollection_init_def extra_fields_or_empty_def dict_valid_def
        to_dict_def store0_def)

subsection \<open>The extra fields of a collection\<close>


lemma Item_clone_call_frame:
  assumes "Item_clone_call P a h = (res, h')"
  shows "dict_objs h' = dict_objs h \<and> extends h h'"
  using assms
  by (auto simp: Item_clone_call_def new_item_def extends_def split: if_splits)

lemma Item_from_dict_call_frame:
  assumes "Item_from_dict_call P j h = (res, h')"
  shows "dict_objs h' = dict_objs h \<and> extends h h'"
  using assms
  by (auto simp: Item_from_dict_call_def new_item_def extends_def split: sum.splits)

lemma deepcopy_content:
  assumes "deepcopy r h = (Inr r', h')"
  shows "dict_valid h r \<and> r' = length (dict_objs h) \<and>
         h' = h\<lparr>dict_objs := dict_objs h @ [dict_objs h ! r]\<rparr>"
  using assms by (auto simp: deepcopy_def new_dict_def split: if_splits)

lemma from_dict_content:
  fixes P :: "('i, 'e) pystac"
  assumes "from_dict P d h = (Inr c, h')"
  shows "dict_valid h' (extra_fields c) \<and> dict_objs h' ! extra_fields c = other_fields d"
proof -
  let ?v = "case dict_get d ''features'' of None \<Rightarrow> JList [] | Some v \<Rightarrow> v"
  from assms obtain fs refs h1 where
    "py_iter ?v = (Inr fs :: 'e error + json list)"
    and m: "map_comp (Item_from_dict_call P) fs h = (Inr refs, h1)"
    and i: "ItemCollection_init P (map ItemObj refs) (Some (length (dict_objs h1))) False
              (h1\<lparr>dict_objs := dict_objs h1 @ [other_fields d]\<rparr>) = (Inr c, h')"
    by (auto simp: from_dict_def new_dict_def split: if_splits sum.splits prod.splits)
  from init_content [OF i] show ?thesis
    by simp
qed

lemma clone_content:
  fixes P :: "('i, 'e) pystac"
  assumes "clone P c0 h = (Inr c, h')"
  shows "dict_valid h' (extra_fields c) \<and>
         dict_objs h' ! extra_fields c = dict_objs h ! extra_fields c0"
proof -
  from assms obtain cs h1 r h2 where
    m: "map_comp (Item_clone_call P) (items c0) h = (Inr cs, h1)"
    and d: "deepcopy (extra_fields c0) h1 = (Inr r :: 'e error + dict_ref, h2)"
    and i: "ItemCollection_init P (map ItemObj cs) (Some r) True h2 = (Inr c, h')"
    by (auto simp: clone_def split: sum.splits prod.splits)
  have fr: "dict_objs h1 = dict_objs h"
    using map_comp_frame [OF _ m] Item_clone_call_frame by blast
  from deepcopy_content [OF d] fr init_content [OF i] show ?thesis
    by simp
qed


lemma from_file_content:
  fixes P :: "('i, 'e) pystac"
  assumes "from_file P href stac_io h = (Inr c, h')"
  shows "\<exists>d. dict_valid h' (extra_fields c) \<and> dict_objs h' ! extra_fields c = other_fields d"
proof -
  from assms obtain d where "from_dict P d h = (Inr c, h')"
    by (auto simp: from_file_def Let_def split: sum.splits)
  from from_dict_content [OF this] show ?thesis
    by blast
qed

lemma reserved_free_other_fields: "reserved_free (other_fields d)"
  by (simp add: reserved_free_def dict_keys_other_fields)

lemma add_content:
  "ItemCollection_add P a (AnItemCollection b) h =
     (Inr (Combined \<lparr>items = combine [] (items a @ items b),
                      extra_fields = length (dict_objs h)\<rparr>),
      h\<lparr>dict_objs := dict_objs h @ [[]]\<rparr>)"
  by (simp add: init_keep_None)

text \<open>
  Claim C4, amended. A collection produced by \<^verbatim>\<open>from_dict\<close> or \<^verbatim>\<open>from_file\<close> has as
  \<^verbatim>\<open>extra_fields\<close> the top-level entries of the document other than \<^verbatim>\<open>"type"\<close> and
  \<^verbatim>\<open>"features"\<close>, and a sum has an empty \<^verbatim>\<open>extra_fields\<close>: neither ever binds one of the
  two keys. The constructor stores the content of its \<^verbatim>\<open>extra_fields\<close> argument as it is
  given, and \<^verbatim>\<open>clone\<close> the content of the source's: these bind the two keys exactly when
  the argument, or the source, does.
\<close>

theorem extra_fields_content:
  "(from_dict P d h = (Inr c, h') \<longrightarrow>
      dict_objs h' ! extra_fields c = other_fields d \<and>
      reserved_free (dict_objs h' ! extra_fields c)) \<and>
   (from_file P href stac_io h = (Inr c, h') \<longrightarrow>
      reserved_free (dict_objs h' ! extra_fields c)) \<and>
   (ItemCollection_add P a (AnItemCollection b) h = (Inr (Combined c), h') \<longrightarrow>
      dict_objs h' ! extra_fields c = [] \<and>
      reserved_free (dict_objs h' ! extra_fields c)) \<and>
   (ItemCollection_init P its ef clone_items h = (Inr c, h') \<longrightarrow>
      dict_objs h' ! extra_fields c = (case ef of None \<Rightarrow> [] | Some r \<Rightarrow> dict_objs h ! r)) \<and>
   (clone P c0 h = (Inr c, h') \<longrightarrow>
      dict_objs h' ! extra_fields c = dict_objs h ! extra_fields c0)"
proof (intro conjI impI)
  assume "from_dict P d h = (Inr c, h')"
  from from_dict_content [OF this]
  show "dict_objs h' ! extra_fields c = other_fields d"
    and "reserved_free (dict_objs h' ! extra_fields c)"
    by (simp_all add: reserved_free_other_fields)
next
  assume "from_file P href stac_io h = (Inr c, h')"
  from from_file_content [OF this]
  show "reserved_free (dict_objs h' ! extra_fields c)"
    by (auto simp: reserved_free_other_fields)
next
  assume "ItemCollection_add P a (AnItemCollection b) h = (Inr (Combined c), h')"
  then have "extra_fields c = length (dict_objs h)" "dict_objs h' = dict_objs h @ [[]]"
    unfolding add_content by auto
  then show "dict_objs h' ! extra_fields c = []"
    and "reserved_free (dict_objs h' ! extra_fields c)"
    by (simp_all add: reserved_free_def dict_keys_def)
next
  assume "ItemCollection_init P its ef clone_items h = (Inr c, h')"
  from init_content [OF this]
  show "dict_objs h' ! extra_fields c = (case ef of None \<Rightarrow> [] | Some r \<Rightarrow> dict_objs h ! r)"
    by simp
next
  assume "clone P c0 h = (Inr c, h')"
  from clone_content [OF this]
  show "dict_objs h' ! extra_fields c = dict_objs h ! extra_fields c0"
    by simp
qed

lemma spec_pystac_simps:
  "identify_stac_object_type spec_pystac = spec_identify"
  "Item_from_dict spec_pystac = spec_Item_from_dict"
  "Item_to_dict spec_pystac = (\<lambda>s. s)"
  "Item_clone spec_pystac = (\<lambda>s. s)"
  "is_absolute_href spec_pystac = (\<lambda>href. take 1 href = ''/'')"
  "make_absolute_href spec_pystac = (\<lambda>href. ''/'' @ href)"
  by (simp_all add: spec_pystac_def)

lemmas run_simps =
  spec_pystac_simps spec_identify_def ItemCollection_init_def extra_fields_or_empty_def
  Item_from_dict_call_def Item_clone_call_def Item_to_dict_call_def deepcopy_def
  new_item_def new_dict_def item_valid_def dict_valid_def other_fields_def
  item_x_def item_y_def item_z_def

theorem extra_fields_content_witness:
  "(\<exists>c h'. from_dict spec_pystac doc0 store0 = (Inr c, h') \<and>
            dict_objs h' ! extra_fields c = [(''license'', JStr ''CC-BY'')]) \<and>
   (\<exists>c h'. from_file spec_pystac ''a.json'' (Some io0) store0 = (Inr c, h') \<and>
            reserved_free (dict_objs h' ! extra_fields c)) \<and>
   (\<exists>c h'. ItemCollection_add spec_pystac \<lparr>items = [0, 1], extra_fields = 0\<rparr>
              (AnItemCollection \<lparr>items = [1, 2], extra_fields = 1\<rparr>) store0
              = (Inr (Combined c), h') \<and>
            dict_objs h' ! extra_fields c = []) \<and>
   (\<exists>c h'. ItemCollection_init spec_pystac [ItemObj 0] (Some 0) True store0 = (Inr c, h') \<and>
            dict_objs h' ! extra_fields c = [(''license'', JStr ''CC-BY'')]) \<and>
   (\<exists>c h'. clone spec_pystac \<lparr>items = [0], extra_fields = 1\<rparr> store0 = (Inr c, h') \<and>
            dict_objs h' ! extra_fields c = [(''type'', JStr ''Other'')])"
proof -
  obtain c1 h1 where r1: "from_dict spec_pystac doc0 store0 = (Inr c1, h1)"
    by (simp add: from_dict_def doc0_def store0_def run_simps)
  obtain c2 h2 where r2: "from_file spec_pystac ''a.json'' (Some io0) store0 = (Inr c2, h2)"
    by (simp add: from_file_def io0_def from_dict_def doc0_def store0_def run_simps)
  obtain c3 h3 where r3:
    "ItemCollection_add spec_pystac \<lparr>items = [0, 1], extra_fields = 0\<rparr>
       (AnItemCollection \<lparr>items = [1, 2], extra_fields = 1\<rparr>) store0 = (Inr (Combined c3), h3)"
    by (simp add: store0_def run_simps)
  obtain c4 h4 where r4:
    "ItemCollection_init spec_pystac [ItemObj 0] (Some 0) True store0 = (Inr c4, h4)"
    by (simp add: store0_def run_simps)
  obtain c5 h5 where r5: "clone spec_pystac \<lparr>items = [0], extra_fields = 1\<rparr> store0 = (Inr c5, h5)"
    by (simp add: clone_def store0_def run_simps)
  have doc: "other_fields doc0 = [(''license'', JStr ''CC-BY'')]"
    by (simp add: other_fields_def doc0_def)
  from extra_fields_content [of spec_pystac doc0 store0 c1 h1] r1 doc
  have "dict_objs h1 ! extra_fields c1 = [(''license'', JStr ''CC-BY'')]"
    by simp
  moreover from extra_fields_content [of spec_pystac _ store0 c2 h2 "''a.json''" "Some io0"] r2
  have "reserved_free (dict_objs h2 ! extra_fields c2)"
    by simp
  moreover from extra_fields_content [of spec_pystac _ store0 c3 h3 _ _
      "\<lparr>items = [0, 1], extra_fields = 0\<rparr>" "\<lparr>items = [1, 2], extra_fields = 1\<rparr>"] r3
  have "dict_objs h3 ! extra_fields c3 = []"
    by simp
  moreover from extra_fields_content [of spec_pystac _ store0 c4 h4 _ _ _ _
      "[ItemObj 0]" "Some 0" True] r4
  have "dict_objs h4 ! extra_fields c4 = [(''license'', JStr ''CC-BY'')]"
    by (simp add: store0_def)
  moreover from extra_fields_content [of spec_pystac _ store0 c5 h5 _ _ _ _ _ _ _
      "\<lparr>items = [0], extra_fields = 1\<rparr>"] r5
  have "dict_objs h5 ! extra_fields c5 = [(''type'', JStr ''Other'')]"
    by (simp add: store0_def)
  ultimately show ?thesis
    using r1 r2 r3 r4 r5 by blast
qed

text \<open>
  The claim as stated fails at the constructor, which takes an \<^verbatim>\<open>extra_fields\<close> that
  binds \<^verbatim>\<open>"type"\<close> and stores it.
\<close>

theorem extra_fields_reserved_counterexample:
  "ItemCollection_init spec_pystac [] (Some 1) True store0
     = (Inr \<lparr>items = [], extra_fields = 1\<rparr>, store0) \<and>
   dict_objs store0 ! extra_fields \<lparr>items = [], extra_fields = 1\<rparr> = [(''type'', JStr ''Other'')] \<and>
   \<not> reserved_free (dict_objs store0 ! extra_fields \<lparr>items = [], extra_fields = 1\<rparr>)"
  by (simp add: ItemCollection_init_def extra_fields_or_empty_def dict_valid_def
        reserved_free_def dict_keys_def store0_def)

subsection \<open>Reserved keys among the extra fields\<close>




subsection \<open>Addition\<close>

lemma set_first_occurrences: "set (first_occurrences xs) = set xs"
  by (induction xs) auto

lemma distinct_first_occurrences: "distinct (first_occurrences xs)"
  by (induction xs) (auto simp: distinct_removeAll)

lemma first_occurrences_distinct: "distinct xs \<Longrightarrow> first_occurrences xs = xs"
  by (induction xs) (auto simp: set_first_occurrences)

lemma removeAll_first_occurrences:
  "removeAll x (first_occurrences xs) = first_occurrences (removeAll x xs)"
  by (induction xs) (auto simp: removeAll_commute)

lemma removeAll_filter: "removeAll x (filter Q xs) = filter (\<lambda>y. y \<noteq> x \<and> Q y) xs"
  by (induction xs) auto

lemma combine_eq:
  "combine acc xs = acc @ first_occurrences (filter (\<lambda>x. x \<notin> set acc) xs)"
proof (induction xs arbitrary: acc)
  case Nil
  then show ?case by simp
next
  case (Cons x xs)
  show ?case
  proof (cases "x \<in> set acc")
    case True
    with Cons.IH [of acc] show ?thesis by simp
  next
    case False
    have "removeAll x (first_occurrences (filter (\<lambda>y. y \<notin> set acc) xs))
            = first_occurrences (filter (\<lambda>y. y \<notin> set (acc @ [x])) xs)"
      by (simp only: removeAll_first_occurrences removeAll_filter) simp
    with False Cons.IH [of "acc @ [x]"] show ?thesis by simp
  qed
qed

lemma combine_Nil: "combine [] xs = first_occurrences xs"
  by (simp add: combine_eq)

lemma first_occurrences_append:
  "first_occurrences (xs @ ys) =
     first_occurrences xs @ first_occurrences (filter (\<lambda>y. y \<notin> set xs) ys)"
proof (induction xs arbitrary: ys)
  case Nil
  then show ?case by simp
next
  case (Cons x xs)
  have "removeAll x (first_occurrences (filter (\<lambda>y. y \<notin> set xs) ys))
          = first_occurrences (filter (\<lambda>y. y \<notin> set (x # xs)) ys)"
    by (simp only: removeAll_first_occurrences removeAll_filter) simp
  with Cons.IH [of ys] show ?case by simp
qed

text \<open>
  Claim C2. For every pair of ItemCollections \<open>A\<close> and \<open>B\<close>, \<^verbatim>\<open>A + B\<close> returns a new
  ItemCollection whose items are the items of \<open>A\<close> followed by those items of \<open>B\<close> that
  are not in \<open>A\<close>, each reference once, at the place of its first occurrence (so the
  items of \<open>A\<close> as they are, when \<open>A\<close> holds no reference twice). No Item is cloned: the
  Item objects of the store are the same before and after. The extra fields of the sum
  are a new empty dictionary. In particular \<open>[x, y] + [y, z]\<close> with the same \<open>y\<close> is
  \<open>[x, y, z]\<close>, of length 3.
\<close>

theorem add_deduplicates:
  "\<exists>c h'. ItemCollection_add P A (AnItemCollection B) h = (Inr (Combined c), h') \<and>
     items c = first_occurrences (items A)
                 @ first_occurrences (filter (\<lambda>b. b \<notin> set (items A)) (items B)) \<and>
     distinct (items c) \<and>
     set (items c) = set (items A) \<union> set (items B) \<and>
     (distinct (items A) \<longrightarrow>
        items c = items A @ first_occurrences (filter (\<lambda>b. b \<notin> set (items A)) (items B))) \<and>
     item_objs h' = item_objs h \<and>
     \<not> dict_valid h (extra_fields c) \<and> dict_valid h' (extra_fields c) \<and>
     dict_objs h' ! extra_fields c = [] \<and> extends h h' \<and>
     (x \<noteq> y \<and> y \<noteq> z \<and> x \<noteq> z \<and> items A = [x, y] \<and> items B = [y, z] \<longrightarrow>
        items c = [x, y, z] \<and> ItemCollection_len c = 3)"
proof -
  let ?c = "\<lparr>items = combine [] (items A @ items B), extra_fields = length (dict_objs h)\<rparr>"
  let ?h = "h\<lparr>dict_objs := dict_objs h @ [[]]\<rparr>"
  have run: "ItemCollection_add P A (AnItemCollection B) h = (Inr (Combined ?c), ?h)"
    by (rule add_content)
  have its: "items ?c = first_occurrences (items A)
                 @ first_occurrences (filter (\<lambda>b. b \<notin> set (items A)) (items B))"
    by (simp add: combine_Nil first_occurrences_append)
  have dist: "distinct (items ?c)"
    by (simp add: combine_Nil distinct_first_occurrences)
  have sets: "set (items ?c) = set (items A) \<union> set (items B)"
    by (simp add: combine_Nil set_first_occurrences)
  have dA: "distinct (items A) \<longrightarrow>
        items ?c = items A @ first_occurrences (filter (\<lambda>b. b \<notin> set (items A)) (items B))"
    using its by (simp add: first_occurrences_distinct)
  have ex: "x \<noteq> y \<and> y \<noteq> z \<and> x \<noteq> z \<and> items A = [x, y] \<and> items B = [y, z] \<longrightarrow>
        items ?c = [x, y, z] \<and> ItemCollection_len ?c = 3"
    by (auto simp: ItemCollection_len_def)
  have store: "item_objs ?h = item_objs h" "\<not> dict_valid h (extra_fields ?c)"
    "dict_valid ?h (extra_fields ?c)" "dict_objs ?h ! extra_fields ?c = []" "extends h ?h"
    by (simp_all add: dict_valid_def extends_def)
  from run its dist sets dA ex store show ?thesis
    by blast
qed

theorem add_deduplicates_witness:
  "\<exists>c h'. ItemCollection_add spec_pystac \<lparr>items = [0, 1], extra_fields = 0\<rparr>
            (AnItemCollection \<lparr>items = [1, 2], extra_fields = 1\<rparr>) store0
            = (Inr (Combined c), h') \<and>
          items c = [0, 1, 2] \<and> ItemCollection_len c = 3 \<and>
          item_objs h' = item_objs store0 \<and> dict_objs h' ! extra_fields c = []"
proof -
  from add_deduplicates [of spec_pystac "\<lparr>items = [0, 1], extra_fields = 0\<rparr>"
          "\<lparr>items = [1, 2], extra_fields = 1\<rparr>" store0 0 1 2]
  obtain c h' where
    "ItemCollection_add spec_pystac \<lparr>items = [0, 1], extra_fields = 0\<rparr>
       (AnItemCollection \<lparr>items = [1, 2], extra_fields = 1\<rparr>) store0 = (Inr (Combined c), h')"
    "items c = [0, 1, 2] \<and> ItemCollection_len c = 3"
    "item_objs h' = item_objs store0" "dict_objs h' ! extra_fields c = []"
    by auto
  then show ?thesis
    by blast
qed

subsection \<open>Round trip through the dictionary form\<close>


lemma map_nth_append_upt:
  "map (\<lambda>a. f ((xs @ ss) ! a)) [length xs ..< length xs + length ss] = map f ss"
  by (rule nth_equalityI) (auto simp: nth_append)








subsection \<open>Cloning\<close>

lemma clone_run:
  fixes P :: "('i, 'e) pystac"
  assumes "\<forall>a\<in>set (items c). item_valid h a" and "dict_valid h (extra_fields c)"
  shows "clone P c h =
           (Inr \<lparr>items = [length (item_objs h) + length (items c)
                            ..< length (item_objs h) + length (items c) + length (items c)],
                  extra_fields = (if dict_objs h ! extra_fields c = []
                                  then Suc (length (dict_objs h)) else length (dict_objs h))\<rparr>,
            h\<lparr>item_objs := item_objs h
                    @ map (\<lambda>a. Item_clone P (item_objs h ! a)) (items c)
                    @ map (\<lambda>a. Item_clone P (Item_clone P (item_objs h ! a))) (items c),
              dict_objs := dict_objs h
                    @ (if dict_objs h ! extra_fields c = [] then [[], []]
                       else [dict_objs h ! extra_fields c])\<rparr>)"
proof -
  let ?n = "length (item_objs h)"
  let ?m = "length (items c)"
  let ?cs1 = "map (\<lambda>a. Item_clone P (item_objs h ! a)) (items c)"
  let ?cs2 = "map (\<lambda>a. Item_clone P (Item_clone P (item_objs h ! a))) (items c)"
  let ?ef = "dict_objs h ! extra_fields c"
  let ?h1 = "h\<lparr>item_objs := item_objs h @ ?cs1\<rparr>"
  let ?h2 = "?h1\<lparr>dict_objs := dict_objs h @ [?ef]\<rparr>"
  let ?h3 = "?h2\<lparr>item_objs := item_objs h @ ?cs1 @ ?cs2\<rparr>"
  have s1: "map_comp (Item_clone_call P) (items c) h = (Inr [?n ..< ?n + ?m], ?h1)"
    using map_comp_clone [OF assms(1), of P] by simp
  have s2: "deepcopy (extra_fields c) ?h1 = (Inr (length (dict_objs h)) :: 'e error + dict_ref, ?h2)"
    using assms(2) by (simp add: deepcopy_def new_dict_def dict_valid_def)
  have v2: "\<forall>a\<in>set [?n ..< ?n + ?m]. item_valid ?h2 a"
    by (simp add: item_valid_def)
  have "map (\<lambda>a. Item_clone P ((item_objs h @ ?cs1) ! a)) [?n ..< ?n + length ?cs1]
          = map (Item_clone P) ?cs1"
    by (rule map_nth_append_upt)
  then have st: "map (\<lambda>a. Item_clone P (item_objs ?h2 ! a)) [?n ..< ?n + ?m] = ?cs2"
    by (simp add: comp_def)
  have s3: "map_comp (map_item P True) (map ItemObj [?n ..< ?n + ?m]) ?h2
              = (Inr [?n + ?m ..< ?n + ?m + ?m], ?h3)"
    using map_comp_clone [OF v2, of P] st
    by (simp add: map_comp_map_item_clone)
  have s4: "extra_fields_or_empty (Some (length (dict_objs h))) ?h3
              = (if ?ef = []
                 then (Inr (Suc (length (dict_objs h))) :: 'e error + dict_ref,
                       ?h3\<lparr>dict_objs := dict_objs h @ [[], []]\<rparr>)
                 else (Inr (length (dict_objs h)), ?h3))"
    by (simp add: extra_fields_or_empty_def dict_valid_def new_dict_def)
  show ?thesis
  proof (cases "?ef = []")
    case True
    with s1 s2 s3 s4 show ?thesis
      by (simp add: clone_def ItemCollection_init_def)
  next
    case False
    with s1 s2 s3 s4 show ?thesis
      by (simp add: clone_def ItemCollection_init_def)
  qed
qed


text \<open>
  Claim C8. For every ItemCollection \<open>c\<close>, \<^verbatim>\<open>c.clone()\<close> returns a new ItemCollection with
  one new Item object per item of \<open>c\<close>, in the same order and pairwise different, and a
  new dictionary of extra fields with the content of the source's. The state of each new
  Item is the one \<^verbatim>\<open>Item.clone\<close> gives, applied twice: \<^verbatim>\<open>clone\<close> clones each item and the
  constructor, called with its default \<^verbatim>\<open>clone_items\<close>, clones the clone; it is the
  state of the source item's own clone when a clone of a clone has the state of the
  clone, as a full copy has. No object is shared: giving a new state to an Item or to the extra fields of the clone leaves the
  Items and the extra fields of \<open>c\<close> as they were, and the other way round.
\<close>

theorem clone_independent:
  fixes P :: "('i, 'e) pystac"
  assumes "\<forall>a\<in>set (items c). item_valid h a" and "dict_valid h (extra_fields c)"
  shows "\<exists>c' h'. clone P c h = (Inr c', h') \<and> extends h h' \<and>
           length (items c') = length (items c) \<and>
           (\<forall>k<length (items c).
              is_new h h' (items c' ! k) \<and>
              item_objs h' ! (items c' ! k)
                = Item_clone P (Item_clone P (item_objs h ! (items c ! k)))) \<and>
           ((\<forall>s. Item_clone P (Item_clone P s) = Item_clone P s) \<longrightarrow>
              (\<forall>k<length (items c).
                 item_objs h' ! (items c' ! k) = Item_clone P (item_objs h ! (items c ! k)))) \<and>
           distinct (items c') \<and>
           is_new_dict h h' (extra_fields c') \<and>
           dict_objs h' ! extra_fields c' = dict_objs h ! extra_fields c \<and>
           (\<forall>a'\<in>set (items c'). \<forall>s. \<forall>a\<in>set (items c).
              item_objs (set_item a' s h') ! a = item_objs h ! a) \<and>
           (\<forall>d. dict_objs (set_dict (extra_fields c') d h') ! extra_fields c
                  = dict_objs h ! extra_fields c) \<and>
           (\<forall>a\<in>set (items c). \<forall>s. \<forall>a'\<in>set (items c').
              item_objs (set_item a s h') ! a' = item_objs h' ! a') \<and>
           (\<forall>d. dict_objs (set_dict (extra_fields c) d h') ! extra_fields c'
                  = dict_objs h' ! extra_fields c')"
proof -
  let ?n = "length (item_objs h)"
  let ?m = "length (items c)"
  let ?cs1 = "map (\<lambda>a. Item_clone P (item_objs h ! a)) (items c)"
  let ?cs2 = "map (\<lambda>a. Item_clone P (Item_clone P (item_objs h ! a))) (items c)"
  let ?ef = "dict_objs h ! extra_fields c"
  let ?r = "if ?ef = [] then Suc (length (dict_objs h)) else length (dict_objs h)"
  let ?c' = "\<lparr>items = [?n + ?m ..< ?n + ?m + ?m], extra_fields = ?r\<rparr>"
  let ?h' = "h\<lparr>item_objs := item_objs h @ ?cs1 @ ?cs2,
               dict_objs := dict_objs h @ (if ?ef = [] then [[], []] else [?ef])\<rparr>"
  have run: "clone P c h = (Inr ?c', ?h')"
    by (rule clone_run [OF assms])
  have ext: "extends h ?h'"
    by (rule extends_append)
  have len: "length (items ?c') = length (items c)"
    by simp
  have new: "\<forall>k<length (items c).
              is_new h ?h' (items ?c' ! k) \<and>
              item_objs ?h' ! (items ?c' ! k)
                = Item_clone P (Item_clone P (item_objs h ! (items c ! k)))"
    by (simp add: is_new_def item_valid_def nth_append)
  have once: "(\<forall>s. Item_clone P (Item_clone P s) = Item_clone P s) \<longrightarrow>
              (\<forall>k<length (items c).
                 item_objs ?h' ! (items ?c' ! k) = Item_clone P (item_objs h ! (items c ! k)))"
  proof (intro impI allI)
    fix k
    assume idem: "\<forall>s. Item_clone P (Item_clone P s) = Item_clone P s"
      and k: "k < length (items c)"
    from new k have "item_objs ?h' ! (items ?c' ! k)
                       = Item_clone P (Item_clone P (item_objs h ! (items c ! k)))"
      by blast
    also from idem have "\<dots> = Item_clone P (item_objs h ! (items c ! k))"
      by blast
    finally show "item_objs ?h' ! (items ?c' ! k) = Item_clone P (item_objs h ! (items c ! k))" .
  qed
  have dist: "distinct (items ?c')"
    by simp
  have newd: "is_new_dict h ?h' (extra_fields ?c')"
    by (simp add: is_new_dict_def dict_valid_def)
  have cont: "dict_objs ?h' ! extra_fields ?c' = ?ef"
    by (simp add: nth_append)
  have old: "a < ?n" if "a \<in> set (items c)" for a
    using assms(1) that by (simp add: item_valid_def)
  have oldd: "extra_fields c < length (dict_objs h)"
    using assms(2) by (simp add: dict_valid_def)
  have m1: "\<forall>a'\<in>set (items ?c'). \<forall>s. \<forall>a\<in>set (items c).
              item_objs (set_item a' s ?h') ! a = item_objs h ! a"
  proof (intro ballI allI)
    fix a' s a
    assume "a' \<in> set (items ?c')" and "a \<in> set (items c)"
    then have "a < ?n" and "?n \<le> a'"
      using old by auto
    then show "item_objs (set_item a' s ?h') ! a = item_objs h ! a"
      by (simp add: set_item_def nth_append)
  qed
  have m2: "\<forall>d. dict_objs (set_dict (extra_fields ?c') d ?h') ! extra_fields c = ?ef"
    using oldd by (simp add: set_dict_def nth_append)
  have m3: "\<forall>a\<in>set (items c). \<forall>s. \<forall>a'\<in>set (items ?c').
              item_objs (set_item a s ?h') ! a' = item_objs ?h' ! a'"
  proof (intro ballI allI)
    fix a s a'
    assume "a \<in> set (items c)" and "a' \<in> set (items ?c')"
    then have "a < ?n" and "?n \<le> a'"
      using old by auto
    then show "item_objs (set_item a s ?h') ! a' = item_objs ?h' ! a'"
      by (simp add: set_item_def)
  qed
  have m4: "\<forall>d. dict_objs (set_dict (extra_fields c) d ?h') ! extra_fields ?c'
                  = dict_objs ?h' ! extra_fields ?c'"
    using oldd by (simp add: set_dict_def)
  from run ext len new once dist newd cont m1 m2 m3 m4 show ?thesis
    by blast
qed


theorem clone_independent_witness:
  "item_valid store0 0 \<and> dict_valid store0 0 \<and>
   (\<exists>c' h'. clone spec_pystac \<lparr>items = [0], extra_fields = 0\<rparr> store0 = (Inr c', h') \<and>
      items c' = [4] \<and> extra_fields c' = 2 \<and>
      item_objs h' ! 4 = item_x \<and> item_objs h' ! 0 = item_x \<and>
      dict_objs h' ! 2 = [(''license'', JStr ''CC-BY'')] \<and>
      item_objs (set_item 4 item_z h') ! 0 = item_x \<and>
      dict_objs (set_dict 2 [] h') ! 0 = [(''license'', JStr ''CC-BY'')] \<and>
      item_objs (set_item 0 item_z h') ! 4 = item_x \<and>
      dict_objs (set_dict 0 [] h') ! 2 = [(''license'', JStr ''CC-BY'')])"
proof -
  let ?c = "\<lparr>items = [0], extra_fields = 0\<rparr>"
  have a: "\<forall>a\<in>set (items ?c). item_valid store0 a"
    by (simp add: item_valid_def store0_def)
  have b: "dict_valid store0 (extra_fields ?c)"
    by (simp add: dict_valid_def store0_def)
  from clone_independent [OF a b, of spec_pystac] obtain c' h' where
    run: "clone spec_pystac ?c store0 = (Inr c', h')"
    and new: "\<forall>k<length (items ?c). is_new store0 h' (items c' ! k) \<and>
                item_objs h' ! (items c' ! k)
                  = Item_clone spec_pystac (Item_clone spec_pystac (item_objs store0 ! (items ?c ! k)))"
    and ext: "extends store0 h'"
    and cont: "dict_objs h' ! extra_fields c' = dict_objs store0 ! extra_fields ?c"
    and m1: "\<forall>a'\<in>set (items c'). \<forall>s. \<forall>a\<in>set (items ?c).
               item_objs (set_item a' s h') ! a = item_objs store0 ! a"
    and m2: "\<forall>d. dict_objs (set_dict (extra_fields c') d h') ! extra_fields ?c
               = dict_objs store0 ! extra_fields ?c"
    and m3: "\<forall>a\<in>set (items ?c). \<forall>s. \<forall>a'\<in>set (items c').
               item_objs (set_item a s h') ! a' = item_objs h' ! a'"
    and m4: "\<forall>d. dict_objs (set_dict (extra_fields ?c) d h') ! extra_fields c'
               = dict_objs h' ! extra_fields c'"
    by blast
  have "fst (clone spec_pystac ?c store0) = Inr \<lparr>items = [4], extra_fields = 2\<rparr>"
    by (simp add: clone_def store0_def run_simps)
  with run have c': "items c' = [4]" "extra_fields c' = 2"
    by auto
  have x: "item_objs store0 ! 0 = item_x" "dict_objs store0 ! 0 = [(''license'', JStr ''CC-BY'')]"
    by (simp_all add: store0_def)
  have v: "item_valid store0 0"
    by (simp add: item_valid_def store0_def)
  from new c' x have s4: "item_objs h' ! 4 = item_x"
    by (simp add: spec_pystac_simps)
  from extends_item_nth [OF ext v] x have s0: "item_objs h' ! 0 = item_x"
    by simp
  from m1 c' x have w1: "item_objs (set_item 4 item_z h') ! 0 = item_x"
    by simp
  from m2 c' x have w2: "dict_objs (set_dict 2 [] h') ! 0 = [(''license'', JStr ''CC-BY'')]"
    by simp
  from m3 c' s4 have w3: "item_objs (set_item 0 item_z h') ! 4 = item_x"
    by simp
  from m4 c' cont x have w4: "dict_objs (set_dict 0 [] h') ! 2 = [(''license'', JStr ''CC-BY'')]"
    by simp
  from run c' s4 s0 cont x w1 w2 w3 w4 v b show ?thesis
    by auto
qed

end
